theory Spec2Isabelle
  imports Main "HOL-Library.Sublist"
begin

section \<open>Python string operations\<close>

text \<open>
  A text is a list of characters; a \<open>char\<close> stands for a code point below 256.
  \<open>is_space\<close> is \<open>str.isspace\<close> on these code points (the set that \<open>str.strip\<close>,
  \<open>str.lstrip\<close>, \<open>str.rstrip\<close> and the regular expression class \<open>\s\<close> remove or match),
  \<open>is_linebreak\<close> the line boundaries of \<open>str.splitlines\<close>.
\<close>

definition is_space :: "char \<Rightarrow> bool" where
  "is_space c = (c \<in> set [CHR 0x09, CHR 0x0A, CHR 0x0B, CHR 0x0C, CHR 0x0D, CHR 0x1C,
                            CHR 0x1D, CHR 0x1E, CHR 0x1F, CHR 0x20, CHR 0x85, CHR 0xA0])"

definition is_linebreak :: "char \<Rightarrow> bool" where
  "is_linebreak c = (c \<in> set [CHR 0x0A, CHR 0x0B, CHR 0x0C, CHR 0x0D, CHR 0x1C,
                                CHR 0x1D, CHR 0x1E, CHR 0x85])"

definition lstrip :: "string \<Rightarrow> string" where
  "lstrip s = dropWhile is_space s"

definition rstrip :: "string \<Rightarrow> string" where
  "rstrip s = rev (dropWhile is_space (rev s))"

definition strip :: "string \<Rightarrow> string" where
  "strip s = rstrip (lstrip s)"

definition startswith :: "string \<Rightarrow> string \<Rightarrow> bool" where
  "startswith s p = (take (length p) s = p)"

definition endswith :: "string \<Rightarrow> string \<Rightarrow> bool" where
  "endswith s p = (length p \<le> length s \<and> drop (length s - length p) s = p)"

text \<open>
  \<open>str.splitlines()\<close>: the text is cut at every line boundary, a carriage return followed
  by a line feed counts as one boundary, the boundaries are not kept, and a text that
  ends with a boundary has no empty last line. \<open>cur\<close> is the line read so far.
\<close>

fun splitlines_from :: "string \<Rightarrow> string \<Rightarrow> string list" where
  "splitlines_from cur [] = (if cur = [] then [] else [cur])"
| "splitlines_from cur [c] = (if is_linebreak c then [cur] else [cur @ [c]])"
| "splitlines_from cur (c # d # cs) =
     (if c = CHR 0x0D \<and> d = CHR 0x0A then cur # splitlines_from [] cs
      else if is_linebreak c then cur # splitlines_from [] (d # cs)
      else splitlines_from (cur @ [c]) (d # cs))"

definition splitlines :: "string \<Rightarrow> string list" where
  "splitlines s = splitlines_from [] s"

text \<open>\<open>sep.join(xs)\<close>.\<close>

fun join :: "string \<Rightarrow> string list \<Rightarrow> string" where
  "join sep [] = []"
| "join sep [x] = x"
| "join sep (x # y # ys) = x @ sep @ join sep (y # ys)"

section \<open>format\_jsonc.py\<close>

subsection \<open>split\_content\_and\_comment\<close>

text \<open>
  The loop over \<open>enumerate(line)\<close>: \<open>pre\<close> is \<open>line[:i]\<close>, the last argument is
  \<open>line[i:]\<close>, and the two flags are the loop's \<open>in_string\<close> and \<open>escaped\<close>. A double
  quote is \<open>CHR 0x22\<close>, a backslash \<open>CHR 0x5C\<close>. The \<open>continue\<close> of the backslash branch
  skips the \<open>escaped = False\<close> that ends every other iteration.
\<close>

fun scan :: "bool \<Rightarrow> bool \<Rightarrow> string \<Rightarrow> string \<Rightarrow> string \<times> string option" where
  "scan in_string escaped pre [] = (rstrip pre, None)"
| "scan in_string escaped pre (ch # rest) =
     (if ch = CHR 0x22 \<and> \<not> escaped then scan (\<not> in_string) False (pre @ [ch]) rest
      else if ch = CHR 0x5C \<and> \<not> escaped then scan in_string True (pre @ [ch]) rest
      else if \<not> in_string \<and> ch = CHR ''/'' \<and> take 1 rest = ''/''
        then (rstrip pre, Some (strip (ch # rest)))
      else scan in_string False (pre @ [ch]) rest)"

definition split_content_and_comment :: "string \<Rightarrow> string \<times> string option" where
  "split_content_and_comment line = scan False False [] line"

text \<open>
  \<open>KEY_RE.match(s)\<close> for \<open>KEY_RE = ^\s*"([^"]+)":\<close>, returning group 1: leading
  whitespace, a double quote, one or more characters other than a double quote, a double
  quote and a colon. The class \<open>[^"]+\<close> cannot cross a quote, so the key ends at the
  second quote of the line.
\<close>

definition KEY_RE_match :: "string \<Rightarrow> string option" where
  "KEY_RE_match s =
     (case dropWhile is_space s of
        [] \<Rightarrow> None
      | q # r \<Rightarrow>
          if q = CHR 0x22 \<and> takeWhile (\<lambda>c. c \<noteq> CHR 0x22) r \<noteq> []
             \<and> take 2 (dropWhile (\<lambda>c. c \<noteq> CHR 0x22) r) = [CHR 0x22, CHR '':'']
          then Some (takeWhile (\<lambda>c. c \<noteq> CHR 0x22) r)
          else None)"

subsection \<open>extract\_comments\<close>

text \<open>
  The local variables of \<open>extract_comments\<close>; \<open>top_lines\<close> is the source's \<open>top\<close>. The two
  dictionaries are maps from the dotted key path.
\<close>

record ext_state =
  top_lines :: "string list"
  leading :: "string \<rightharpoonup> string list"
  inline :: "string \<rightharpoonup> string"
  cur_comments :: "string list"
  path_stack :: "string list"
  in_obj :: bool

definition full_path :: "string list \<Rightarrow> string \<Rightarrow> string" where
  "full_path stack key = join ''.'' (stack @ (if key \<noteq> [] then [key] else []))"

text \<open>\<open>if comment:\<close> holds for a comment that is neither \<open>None\<close> nor the empty text.\<close>

definition truthy_comment :: "string option \<Rightarrow> bool" where
  "truthy_comment comment = (case comment of None \<Rightarrow> False | Some c \<Rightarrow> c \<noteq> [])"

text \<open>
  One iteration of \<open>for line in lines\<close>. The tests on \<open>content\<close> are made on the text as
  \<open>split_content_and_comment\<close> returns it: its right end is stripped, its left end is not.
\<close>

definition extract_step :: "ext_state \<Rightarrow> string \<Rightarrow> ext_state" where
  "extract_step st line =
     (let (content, comment) = split_content_and_comment line in
      if content = [] then
        (if \<not> in_obj st then st\<lparr>top_lines := top_lines st @ [rstrip line]\<rparr>
         else st\<lparr>cur_comments := cur_comments st @ [strip line]\<rparr>)
      else if startswith content ''{'' then st\<lparr>in_obj := True\<rparr>
      else if startswith content ''}'' then
        (let st1 = (if truthy_comment comment
                    then st\<lparr>cur_comments := cur_comments st @ [the comment]\<rparr> else st)
         in st1\<lparr>path_stack := butlast (path_stack st1)\<rparr>)
      else
        (case KEY_RE_match content of
           Some key \<Rightarrow>
             (let fp = full_path (path_stack st) key;
                  st1 = (if cur_comments st \<noteq> []
                         then st\<lparr>leading := (leading st)(fp \<mapsto> cur_comments st),
                                 cur_comments := []\<rparr>
                         else st);
                  st2 = (if truthy_comment comment
                         then st1\<lparr>inline := (inline st1)(fp \<mapsto> the comment)\<rparr> else st1)
              in if CHR ''{'' \<in> set content
                 then st2\<lparr>path_stack := path_stack st2 @ [key]\<rparr> else st2)
         | None \<Rightarrow>
             (if truthy_comment comment
              then st\<lparr>cur_comments := cur_comments st @ [the comment]\<rparr> else st)))"

definition ext_init :: ext_state where
  "ext_init = \<lparr>top_lines = [], leading = Map.empty, inline = Map.empty,
               cur_comments = [], path_stack = [], in_obj = False\<rparr>"

text \<open>
  The result is the tuple the source returns, \<open>(top, leading, inline, bottom)\<close>; \<open>bottom\<close>
  is what is left in \<open>cur_comments\<close> after the last line.
\<close>

definition extract_comments ::
  "string list \<Rightarrow>
   string list \<times> (string \<rightharpoonup> string list) \<times> (string \<rightharpoonup> string) \<times> string list" where
  "extract_comments lines =
     (let st = foldl extract_step ext_init lines
      in (top_lines st, leading st, inline st, cur_comments st))"

subsection \<open>format\_jsonc\_file\<close>

text \<open>
  One iteration of \<open>for line in formatted[1:-1]\<close>, on the pair of \<open>out_lines\<close> and
  \<open>stack\<close>.
\<close>

definition reinject_step ::
  "(string \<rightharpoonup> string list) \<Rightarrow> (string \<rightharpoonup> string) \<Rightarrow>
   string list \<times> string list \<Rightarrow> string \<Rightarrow> string list \<times> string list" where
  "reinject_step leading_c inline_c acc line =
     (let (out_lines, stack) = acc; stripped = strip line in
      if startswith stripped ''}'' then (out_lines @ [line], butlast stack)
      else
        (case KEY_RE_match line of
           Some key \<Rightarrow>
             (let fp = join ''.'' (stack @ [key]);
                  indent = takeWhile (\<lambda>c. c \<noteq> CHR 0x22) line;
                  out1 = (case leading_c fp of
                            Some cs \<Rightarrow> out_lines @ map (\<lambda>c. indent @ strip c) cs
                          | None \<Rightarrow> out_lines);
                  out2 = (case inline_c fp of
                            Some c \<Rightarrow> out1 @ [line @ '' '' @ c]
                          | None \<Rightarrow> out1 @ [line])
              in (out2, if endswith (strip line) ''{'' then stack @ [key] else stack))
         | None \<Rightarrow> (out_lines @ [line], stack)))"

text \<open>
  The second half of \<open>format_jsonc_file\<close>, from \<open>opening, closing = ...\<close> to the filter
  that removes the blank lines. It is called with a non-empty \<open>formatted\<close> only: on an
  empty one the source raises at \<open>formatted[0]\<close>, which \<open>format_jsonc_file\<close> below tests
  first.
\<close>

definition reinject ::
  "string list \<Rightarrow> (string \<rightharpoonup> string list) \<Rightarrow> (string \<rightharpoonup> string) \<Rightarrow> string list \<Rightarrow>
   string list \<Rightarrow> string list" where
  "reinject top_c leading_c inline_c bottom formatted =
     (let opening = hd formatted; closing = last formatted;
          out0 = top_c @ [opening];
          (out1, stack) = foldl (reinject_step leading_c inline_c) (out0, [])
                            (butlast (tl formatted));
          out2 = (if length formatted > 1 then out1 @ [closing] else out1);
          out3 = out2 @ bottom
      in filter (\<lambda>ln. strip ln \<noteq> []) out3)"

text \<open>
  The library \<open>commentjson\<close> is not part of the program and is a parameter: \<open>loads\<close>
  returns \<open>None\<close> where the library raises \<open>JSONLibraryException\<close>, \<open>is_falsy\<close> is Python's
  \<open>not data\<close>, and \<open>dumps\<close> is \<open>commentjson.dumps(data, indent=2)\<close>.
\<close>

record 'd jsonlib =
  loads :: "string \<Rightarrow> 'd option"
  is_falsy :: "'d \<Rightarrow> bool"
  dumps :: "'d \<Rightarrow> string"

text \<open>
  What one call of a formatter did to one file: \<open>disk\<close> is the content of the file after
  the call, \<open>raised\<close> whether the call ended with an exception, \<open>parsed\<close> and \<open>dumped\<close>
  whether the library's parser and serializer were called.
\<close>

record run =
  disk :: string
  raised :: bool
  parsed :: bool
  dumped :: bool

text \<open>
  The text both early exits write:
  \<open>"\n".join([ln.lstrip().rstrip() for ln in lines if ln.strip()]) + "\n"\<close>.
\<close>

definition keep_comment_lines :: "string list \<Rightarrow> string" where
  "keep_comment_lines lines =
     join ''\<newline>'' (map (\<lambda>ln. rstrip (lstrip ln)) (filter (\<lambda>ln. strip ln \<noteq> []) lines))
       @ ''\<newline>''"

text \<open>
  \<open>format_jsonc_file\<close> on a file whose content is \<open>content\<close> (\<open>path.read_text()\<close>). Every
  write of the source is its last statement before a return, so a call that raises leaves
  the file as it was.
\<close>

definition format_jsonc_file :: "'d jsonlib \<Rightarrow> string \<Rightarrow> run" where
  "format_jsonc_file lib content =
     (let lines = map (\<lambda>ln. ln @ ''\<newline>'') (splitlines content);
          (top_c, leading_c, inline_c, bottom) = extract_comments lines;
          non_empty_lines = filter (\<lambda>ln. strip ln \<noteq> []) lines;
          non_comment_lines = filter (\<lambda>ln. \<not> startswith (strip ln) ''//'') non_empty_lines
      in if non_comment_lines = [] then
           \<lparr>disk = keep_comment_lines lines, raised = False, parsed = False, dumped = False\<rparr>
         else
           (case loads lib content of
              None \<Rightarrow> \<lparr>disk = content, raised = True, parsed = True, dumped = False\<rparr>
            | Some data \<Rightarrow>
                if is_falsy lib data then
                  \<lparr>disk = keep_comment_lines lines, raised = False, parsed = True,
                   dumped = False\<rparr>
                else
                  (let formatted = splitlines (dumps lib data) in
                   if formatted = [] then
                     \<lparr>disk = content, raised = True, parsed = True, dumped = True\<rparr>
                   else
                     \<lparr>disk = join ''\<newline>''
                               (reinject top_c leading_c inline_c bottom formatted) @ ''\<newline>'',
                      raised = False, parsed = True, dumped = True\<rparr>)))"

subsection \<open>main\<close>

text \<open>
  The files are a map from a path to its content; a path that is not in the map cannot be
  read, and \<open>read_text\<close> raises. \<open>main\<close> returns the files, the list it prints and its
  return value.
\<close>

type_synonym filesystem = "string \<rightharpoonup> string"

definition format_jsonc_path ::
  "'d jsonlib \<Rightarrow> filesystem \<Rightarrow> string \<Rightarrow> filesystem \<times> bool" where
  "format_jsonc_path lib fs p =
     (case fs p of
        None \<Rightarrow> (fs, True)
      | Some content \<Rightarrow>
          (let r = format_jsonc_file lib content in (fs(p \<mapsto> disk r), raised r)))"

definition main_step ::
  "'d jsonlib \<Rightarrow> filesystem \<times> string list \<Rightarrow> string \<Rightarrow> filesystem \<times> string list" where
  "main_step lib acc p =
     (let (fs, failed_files) = acc; (fs', exc) = format_jsonc_path lib fs p
      in (fs', if exc then failed_files @ [p] else failed_files))"

definition main ::
  "'d jsonlib \<Rightarrow> string list \<Rightarrow> filesystem \<Rightarrow> filesystem \<times> string list \<times> int" where
  "main lib argv fs =
     (let (fs', failed_files) = foldl (main_step lib) (fs, []) argv
      in (fs', failed_files, if failed_files \<noteq> [] then 1 else 0))"

section \<open>format\_yaml.py\<close>

text \<open>One iteration of the loop of \<open>compress_comments\<close>, on the list \<open>compressed\<close>.\<close>

definition compress_step :: "string list \<Rightarrow> string \<Rightarrow> string list" where
  "compress_step compressed ln =
     (let stripped = strip ln in
      if startswith stripped ''#'' then compressed @ [stripped]
      else if stripped \<noteq> [] then compressed @ [ln]
      else if compressed \<noteq> [] \<and> strip (last compressed) \<noteq> [] then compressed @ [ln]
      else compressed)"

definition compress_lines :: "string list \<Rightarrow> string list" where
  "compress_lines lines = foldl compress_step [] lines"

definition compress_comments :: "string \<Rightarrow> string" where
  "compress_comments content =
     join ''\<newline>'' (compress_lines (splitlines content)) @ ''\<newline>''"

definition strip_trailing_whitespace :: "string \<Rightarrow> string" where
  "strip_trailing_whitespace content =
     join ''\<newline>'' (map rstrip (splitlines content)) @ ''\<newline>''"

text \<open>
  The library \<open>ruamel.yaml\<close> is a parameter: \<open>yaml_load\<close> is \<open>LoadError\<close> where the library
  raises and \<open>Loaded None\<close> where it returns Python's \<open>None\<close> (a document of comments
  only); \<open>yaml_dump\<close> is the text \<open>yaml.dump\<close> writes.
\<close>

datatype 'y loaded = LoadError | Loaded "'y option"

record 'y yamllib =
  yaml_load :: "string \<Rightarrow> 'y loaded"
  yaml_dump :: "'y option \<Rightarrow> string"

text \<open>
  \<open>format_file\<close>; \<open>in_workflows\<close> is \<open>file_path.parent == Path(".github/workflows")\<close>.
  \<open>compress_comments\<close> has rewritten the file when the parser is called.
\<close>

definition format_file :: "'y yamllib \<Rightarrow> bool \<Rightarrow> string \<Rightarrow> run" where
  "format_file lib in_workflows content =
     (if content = [] then
        \<lparr>disk = content, raised = False, parsed = False, dumped = False\<rparr>
      else
        (let compressed = (if \<not> in_workflows then compress_comments content else content) in
         case yaml_load lib compressed of
           LoadError \<Rightarrow> \<lparr>disk = compressed, raised = True, parsed = True, dumped = False\<rparr>
         | Loaded data \<Rightarrow>
             if data \<noteq> None then
               \<lparr>disk = compressed, raised = False, parsed = True, dumped = False\<rparr>
             else
               \<lparr>disk = strip_trailing_whitespace (yaml_dump lib data),
                raised = False, parsed = True, dumped = True\<rparr>))"

text \<open>
  The loop under \<open>if __name__ == "__main__"\<close>: it has no exception handler, so the first
  call that raises ends it. The result is the files and whether an exception ended the
  loop.
\<close>

fun yaml_main ::
  "'y yamllib \<Rightarrow> (string \<Rightarrow> bool) \<Rightarrow> string list \<Rightarrow> filesystem \<Rightarrow> filesystem \<times> bool" where
  "yaml_main lib in_workflows [] fs = (fs, False)"
| "yaml_main lib in_workflows (p # paths) fs =
     (case fs p of
        None \<Rightarrow> (fs, True)
      | Some content \<Rightarrow>
          (let r = format_file lib (in_workflows p) content in
           if raised r then (fs(p \<mapsto> disk r), True)
           else yaml_main lib in_workflows paths (fs(p \<mapsto> disk r))))"

section \<open>Specification vocabulary\<close>

subsection \<open>Quoted strings\<close>

text \<open>
  The state of a scan for quoted strings, in the words of the specification: the flag
  "inside a string" is toggled by a double quote that is not escaped, and the character
  after a backslash is skipped. \<open>inside_string pre\<close> says that a character following the
  prefix \<open>pre\<close> of a line lies inside a quoted string.
\<close>

fun quote_state :: "bool \<times> bool \<Rightarrow> char \<Rightarrow> bool \<times> bool" where
  "quote_state (in_string, escaped) ch =
     (if escaped then (in_string, False)
      else if ch = CHR 0x22 then (\<not> in_string, False)
      else if ch = CHR 0x5C then (in_string, True)
      else (in_string, False))"

definition inside_string :: "string \<Rightarrow> bool" where
  "inside_string pre = fst (foldl quote_state (False, False) pre)"

text \<open>What \<open>scan\<close> owes for the part \<open>rest\<close> of a line whose part \<open>pre\<close> is read.\<close>

definition scan_post :: "string \<Rightarrow> string \<Rightarrow> string \<times> string option \<Rightarrow> bool" where
  "scan_post pre rest res =
    (case res of
      (content, None) \<Rightarrow>
        content = rstrip (pre @ rest) \<and>
        (\<forall>p r. rest = p @ ''//'' @ r \<longrightarrow> inside_string (pre @ p))
    | (content, Some comment) \<Rightarrow>
        (\<exists>p r. rest = p @ ''//'' @ r \<and> \<not> inside_string (pre @ p) \<and>
               content = rstrip (pre @ p) \<and> comment = strip (''//'' @ r) \<and>
               (\<forall>p' r'. rest = p' @ ''//'' @ r' \<and> length p' < length p
                          \<longrightarrow> inside_string (pre @ p'))))"

subsection \<open>Blank lines\<close>

text \<open>
  The specification of \<open>compress_comments\<close> on the lines of a file, in the words of its
  description: a comment line is replaced by its stripped form, any other non-blank line is
  kept, and of a run of blank lines the first is kept, unless the run starts the file.
  \<open>after_blank\<close> says that the line before was blank, or that there was none.
\<close>

fun collapse_blank_runs :: "bool \<Rightarrow> string list \<Rightarrow> string list" where
  "collapse_blank_runs after_blank [] = []"
| "collapse_blank_runs after_blank (ln # lns) =
     (if startswith (strip ln) ''#'' then strip ln # collapse_blank_runs False lns
      else if strip ln \<noteq> [] then ln # collapse_blank_runs False lns
      else if after_blank then collapse_blank_runs True lns
      else ln # collapse_blank_runs True lns)"

text \<open>No two blank lines follow each other, and the first line is not blank.\<close>

fun blank_separated :: "bool \<Rightarrow> string list \<Rightarrow> bool" where
  "blank_separated after_blank [] = True"
| "blank_separated after_blank (ln # lns) =
     (if strip ln = [] then \<not> after_blank \<and> blank_separated True lns
      else blank_separated False lns)"

text \<open>A line without a line boundary of \<open>str.splitlines\<close>.\<close>

definition no_linebreak :: "string \<Rightarrow> bool" where
  "no_linebreak s = (\<not> list_ex is_linebreak s)"

subsection \<open>Files of comments, written texts, failing files\<close>

text \<open>
  A file that holds only comment lines and blank lines, or nothing at all; a file with
  structural content is one that is not of this kind.
\<close>

definition only_comments_and_blanks :: "string \<Rightarrow> bool" where
  "only_comments_and_blanks content =
     list_all (\<lambda>ln. strip ln = [] \<or> startswith (strip ln) ''//'') (splitlines content)"

definition has_structure :: "string \<Rightarrow> bool" where
  "has_structure content = (\<not> only_comments_and_blanks content)"

text \<open>
  The text ends with exactly one newline: its last character is a newline and the
  character before it is not, so that the last line is not empty.
\<close>

definition ends_with_one_newline :: "string \<Rightarrow> bool" where
  "ends_with_one_newline t =
     (2 \<le> length t \<and> last t = CHR ''\<newline>'' \<and> last (butlast t) \<noteq> CHR ''\<newline>'')"

text \<open>No text that \<open>extract_comments\<close> has collected holds a line boundary.\<close>

definition ext_clean :: "ext_state \<Rightarrow> bool" where
  "ext_clean st =
     (list_all no_linebreak (top_lines st) \<and> list_all no_linebreak (cur_comments st) \<and>
      (\<forall>fp cs. leading st fp = Some cs \<longrightarrow> list_all no_linebreak cs) \<and>
      (\<forall>fp c. inline st fp = Some c \<longrightarrow> no_linebreak c))"

text \<open>
  The call of \<open>format_jsonc_file\<close> on the path ends with an exception: the file cannot be
  read, or the formatter raises.
\<close>

definition jsonc_fails :: "'d jsonlib \<Rightarrow> filesystem \<Rightarrow> string \<Rightarrow> bool" where
  "jsonc_fails lib fs p =
     (case fs p of None \<Rightarrow> True | Some content \<Rightarrow> raised (format_jsonc_file lib content))"

section \<open>Example inputs\<close>

text \<open>
  Stand-ins for the two libraries on the example files. \<open>canonical_lib c\<close> is
  \<open>commentjson\<close> on a file whose value is not empty and whose canonical text is \<open>c\<close>: the
  value is represented by that text. \<open>rejecting_jsonlib\<close> is \<open>commentjson\<close> on a text that
  it rejects. \<open>null_yamllib\<close> is \<open>ruamel.yaml\<close> on a document of comments only (the parser
  returns \<open>None\<close>, which is dumped as \<open>null\<close>), \<open>rejecting_yamllib\<close> on a text that it
  rejects, \<open>document_yamllib\<close> on a text that holds a mapping. \<open>outside_workflows\<close> says
  that no path lies in \<open>.github/workflows\<close>.
\<close>

definition canonical_lib :: "string \<Rightarrow> string jsonlib" where
  "canonical_lib canonical =
     \<lparr>loads = (\<lambda>_. Some canonical), is_falsy = (\<lambda>_. False), dumps = (\<lambda>d. d)\<rparr>"

definition rejecting_jsonlib :: "unit jsonlib" where
  "rejecting_jsonlib = \<lparr>loads = (\<lambda>_. None), is_falsy = (\<lambda>_. False), dumps = (\<lambda>_. [])\<rparr>"

definition null_yamllib :: "unit yamllib" where
  "null_yamllib =
     \<lparr>yaml_load = (\<lambda>_. Loaded None), yaml_dump = (\<lambda>_. ''null\<newline>...\<newline>'')\<rparr>"

definition rejecting_yamllib :: "unit yamllib" where
  "rejecting_yamllib =
     \<lparr>yaml_load = (\<lambda>_. LoadError), yaml_dump = (\<lambda>_. ''null\<newline>...\<newline>'')\<rparr>"

definition document_yamllib :: "unit yamllib" where
  "document_yamllib =
     \<lparr>yaml_load = (\<lambda>_. Loaded (Some ())), yaml_dump = (\<lambda>_. ''key: value\<newline>'')\<rparr>"

definition outside_workflows :: "string \<Rightarrow> bool" where
  "outside_workflows p = False"

text \<open>
  The scenario of the specification with its canonical form; a file in canonical form
  with a nested object and a comment on the key after it; a file written without
  indentation, its canonical form and the text its first formatting writes.
\<close>

definition scenario :: string where
  \<open>scenario = ''{ // note\<newline>  "a": 1 // x\<newline>}''\<close>

definition scenario_canonical :: string where
  \<open>scenario_canonical = ''{\<newline>  "a": 1\<newline>}''\<close>

definition nested :: string where
  \<open>nested = ''{\<newline>  "a": {\<newline>    "b": 1\<newline>  },\<newline>  "c": 2 // x\<newline>}\<newline>''\<close>

definition nested_canonical :: string where
  \<open>nested_canonical = ''{\<newline>  "a": {\<newline>    "b": 1\<newline>  },\<newline>  "c": 2\<newline>}''\<close>

definition flush :: string where
  \<open>flush = ''{\<newline>"a": {\<newline>"x": 0\<newline>},\<newline>"b": 1 // c\<newline>}\<newline>''\<close>

definition flush_canonical :: string where
  \<open>flush_canonical = ''{\<newline>  "a": {\<newline>    "x": 0\<newline>  },\<newline>  "b": 1\<newline>}''\<close>

definition flush_formatted :: string where
  \<open>flush_formatted = ''{\<newline>  "a": {\<newline>    "x": 0\<newline>  },\<newline>  "b": 1 // c\<newline>}\<newline>''\<close>

text \<open>Two JSONC files, the first truncated; two YAML files, the first malformed.\<close>

definition jsonc_files :: filesystem where
  "jsonc_files = [''a.jsonc'' \<mapsto> ''{\<newline>'', ''b.jsonc'' \<mapsto> ''  // c  \<newline>'']"

definition yaml_files :: filesystem where
  "yaml_files = [''a.yml'' \<mapsto> ''  # c\<newline>key: [\<newline>'', ''b.yml'' \<mapsto> ''  # d\<newline>k: v\<newline>'']"

section \<open>Properties of the string operations\<close>

lemma rstrip_prefix: "prefix (rstrip s) s"
proof -
  have "rev s = takeWhile is_space (rev s) @ dropWhile is_space (rev s)" by simp
  then have "s = rev (dropWhile is_space (rev s)) @ rev (takeWhile is_space (rev s))"
    by (metis rev_append rev_rev_ident)
  then show ?thesis unfolding rstrip_def by (metis prefixI)
qed

lemma set_rstrip: "set (rstrip s) \<subseteq> set s"
  unfolding rstrip_def using set_dropWhileD by fastforce

lemma set_lstrip: "set (lstrip s) \<subseteq> set s"
  unfolding lstrip_def using set_dropWhileD by fastforce

lemma set_strip: "set (strip s) \<subseteq> set s"
  unfolding strip_def using set_rstrip set_lstrip by blast

lemma rstrip_Cons: "\<not> is_space a \<Longrightarrow> rstrip (a # s) = a # rstrip s"
  unfolding rstrip_def by (simp add: dropWhile_append)

lemma lstrip_Cons: "\<not> is_space a \<Longrightarrow> lstrip (a # s) = a # s"
  unfolding lstrip_def by simp

lemma strip_marker: "take 2 (strip (''//'' @ r)) = ''//''"
  by (simp add: strip_def lstrip_Cons rstrip_Cons is_space_def)

lemma lstrip_id: "s = [] \<or> \<not> is_space (hd s) \<Longrightarrow> lstrip s = s"
  unfolding lstrip_def by (cases s) auto

lemma rstrip_id: "s = [] \<or> \<not> is_space (last s) \<Longrightarrow> rstrip s = s"
  unfolding rstrip_def by (cases s rule: rev_cases) auto

lemma lstrip_hd: "lstrip s \<noteq> [] \<Longrightarrow> \<not> is_space (hd (lstrip s))"
  unfolding lstrip_def using hd_dropWhile by blast

lemma rstrip_last: "rstrip s \<noteq> [] \<Longrightarrow> \<not> is_space (last (rstrip s))"
  unfolding rstrip_def using hd_dropWhile[of is_space "rev s"] by (simp add: last_rev)

lemma rstrip_hd: "rstrip s \<noteq> [] \<Longrightarrow> hd (rstrip s) = hd s"
  using rstrip_prefix[of s] by (metis hd_append2 prefixE)

lemma rstrip_idem: "rstrip (rstrip s) = rstrip s"
  using rstrip_id rstrip_last by blast

lemma strip_idem: "strip (strip s) = strip s"
proof (cases "strip s = []")
  case True
  have "strip [] = []" by (simp add: strip_def lstrip_def rstrip_def)
  with True show ?thesis by simp
next
  case False
  then have ne: "rstrip (lstrip s) \<noteq> []" by (simp add: strip_def)
  then have "lstrip s \<noteq> []" by (auto simp: rstrip_def)
  then have "\<not> is_space (hd (lstrip s))" by (rule lstrip_hd)
  with rstrip_hd[OF ne] have "\<not> is_space (hd (rstrip (lstrip s)))" by simp
  then have "lstrip (rstrip (lstrip s)) = rstrip (lstrip s)" by (simp add: lstrip_id)
  then show ?thesis by (simp add: strip_def rstrip_idem)
qed

lemma splitlines_from_line:
  "no_linebreak l \<Longrightarrow>
   splitlines_from cur (l @ CHR ''\<newline>'' # rest) = (cur @ l) # splitlines_from [] rest"
proof (induction l arbitrary: cur)
  case Nil
  show ?case by (cases rest) (simp_all add: is_linebreak_def)
next
  case (Cons a l)
  then have a: "\<not> is_linebreak a" and l: "no_linebreak l" by (simp_all add: no_linebreak_def)
  from a have cr: "a \<noteq> CHR 0x0D" by (auto simp: is_linebreak_def)
  obtain d cs where dc: "l @ CHR ''\<newline>'' # rest = d # cs" by (cases "l @ CHR ''\<newline>'' # rest") auto
  have "splitlines_from cur ((a # l) @ CHR ''\<newline>'' # rest) = splitlines_from (cur @ [a]) (l @ CHR ''\<newline>'' # rest)"
    using a cr dc by simp
  with Cons.IH[OF l, of "cur @ [a]"] show ?case by simp
qed

lemma join_newline: "lns \<noteq> [] \<Longrightarrow> join ''\<newline>'' lns @ ''\<newline>'' = concat (map (\<lambda>l. l @ ''\<newline>'') lns)"
  by (induction "''\<newline>''" lns rule: join.induct) simp_all

lemma splitlines_concat:
  "list_all no_linebreak lns \<Longrightarrow> splitlines (concat (map (\<lambda>l. l @ ''\<newline>'') lns)) = lns"
  unfolding splitlines_def
  by (induction lns) (simp_all add: splitlines_from_line)

lemma splitlines_join:
  "lns \<noteq> [] \<Longrightarrow> list_all no_linebreak lns \<Longrightarrow> splitlines (join ''\<newline>'' lns @ ''\<newline>'') = lns"
  by (simp add: join_newline splitlines_concat)

lemma splitlines_from_no_linebreak:
  "no_linebreak cur \<Longrightarrow> list_all no_linebreak (splitlines_from cur s)"
  by (induction cur s rule: splitlines_from.induct) (auto simp: no_linebreak_def)

lemma splitlines_no_linebreak: "list_all no_linebreak (splitlines s)"
  unfolding splitlines_def by (rule splitlines_from_no_linebreak) (simp add: no_linebreak_def)

lemma no_linebreak_subset: "set t \<subseteq> set s \<Longrightarrow> no_linebreak s \<Longrightarrow> no_linebreak t"
  by (auto simp: no_linebreak_def list_ex_iff)

lemma newline_space: "is_space (CHR ''\<newline>'')"
  by (simp add: is_space_def)

lemma rstrip_snoc_space: "is_space c \<Longrightarrow> rstrip (s @ [c]) = rstrip s"
  by (simp add: rstrip_def)

lemma lstrip_all_space: "list_all is_space s \<Longrightarrow> lstrip (s @ t) = lstrip t"
  unfolding lstrip_def by (induction s) simp_all

lemma lstrip_append: "\<not> list_all is_space s \<Longrightarrow> lstrip (s @ t) = lstrip s @ t"
  unfolding lstrip_def by (induction s) simp_all

lemma lstrip_all_space_Nil: "list_all is_space s \<Longrightarrow> lstrip s = []"
  unfolding lstrip_def by (induction s) simp_all

lemma strip_append_newline: "strip (ln @ ''\<newline>'') = strip ln"
proof (cases "list_all is_space ln")
  case True
  then have "lstrip (ln @ ''\<newline>'') = []" "lstrip ln = []"
    using lstrip_all_space[of ln "''\<newline>''"] lstrip_all_space_Nil[of "''\<newline>''"]
    by (simp_all add: lstrip_all_space_Nil newline_space)
  then show ?thesis by (simp add: strip_def)
next
  case False
  then have "lstrip (ln @ ''\<newline>'') = lstrip ln @ ''\<newline>''" by (rule lstrip_append)
  then show ?thesis by (simp add: strip_def rstrip_snoc_space newline_space)
qed

lemma no_linebreak_append: "no_linebreak (a @ b) \<longleftrightarrow> no_linebreak a \<and> no_linebreak b"
  by (auto simp: no_linebreak_def)

lemma no_linebreak_strip: "no_linebreak s \<Longrightarrow> no_linebreak (strip s)"
  using set_strip by (rule no_linebreak_subset)

lemma no_linebreak_rstrip: "no_linebreak s \<Longrightarrow> no_linebreak (rstrip s)"
  using set_rstrip by (rule no_linebreak_subset)

lemma rstrip_append_newline: "rstrip (ln @ ''\<newline>'') = rstrip ln"
  by (simp add: rstrip_snoc_space newline_space)

lemma list_all_butlast_tl: "list_all P xs \<Longrightarrow> list_all P (butlast (tl xs))"
  by (metis in_set_butlastD list.set_sel(2) list_all_iff tl_Nil)

lemma join_nonempty: "lns \<noteq> [] \<Longrightarrow> last lns \<noteq> [] \<Longrightarrow> join sep lns \<noteq> []"
  by (induction sep lns rule: join.induct) auto

lemma last_join:
  "lns \<noteq> [] \<Longrightarrow> last lns \<noteq> [] \<Longrightarrow> last (join sep lns) = last (last lns)"
proof (induction sep lns rule: join.induct)
  case (3 sep x y ys)
  then have "join sep (y # ys) \<noteq> []" using join_nonempty[of "y # ys" sep] by simp
  with 3 show ?case by (simp add: last_append)
qed simp_all

text \<open>The definitions that evaluate the formatters on a given text.\<close>

lemmas string_ops = splitlines_def is_linebreak_def strip_def lstrip_def rstrip_def
  is_space_def startswith_def endswith_def

lemmas jsonc_ops = format_jsonc_file_def extract_comments_def extract_step_def ext_init_def
  split_content_and_comment_def KEY_RE_match_def full_path_def truthy_comment_def
  reinject_def reinject_step_def keep_comment_lines_def canonical_lib_def Let_def


section \<open>Properties of the comment scanner\<close>

lemma scan_post_skip:
  assumes here: "ch = CHR ''/'' \<and> take 1 rest = ''/'' \<Longrightarrow> inside_string pre"
    and later: "scan_post (pre @ [ch]) rest res"
  shows "scan_post pre (ch # rest) res"
proof (cases res)
  case (Pair content cm)
  show ?thesis
  proof (cases cm)
    case None
    have "inside_string (pre @ p)" if "ch # rest = p @ ''//'' @ r" for p r
    proof (cases p)
      case Nil
      with that here show ?thesis by simp
    next
      case (Cons a q)
      with that have "p = ch # q" "rest = q @ ''//'' @ r" by simp_all
      with later Pair None show ?thesis by (simp add: scan_post_def)
    qed
    with later Pair None show ?thesis by (simp add: scan_post_def)
  next
    case (Some comment)
    with later Pair obtain q r where q: "rest = q @ ''//'' @ r" "\<not> inside_string (pre @ [ch] @ q)"
      "content = rstrip (pre @ [ch] @ q)" "comment = strip (''//'' @ r)"
      and first: "\<And>p' r'. rest = p' @ ''//'' @ r' \<Longrightarrow> length p' < length q \<Longrightarrow> inside_string (pre @ [ch] @ p')"
      by (auto simp: scan_post_def)
    have "inside_string (pre @ p')" if "ch # rest = p' @ ''//'' @ r'" "length p' < length (ch # q)" for p' r'
    proof (cases p')
      case Nil
      with that here show ?thesis by simp
    next
      case (Cons a q')
      with that have "p' = ch # q'" "rest = q' @ ''//'' @ r'" "length q' < length q" by simp_all
      with first[of q' r'] show ?thesis by simp
    qed
    then have inst: "ch # rest = (ch # q) @ ''//'' @ r \<and> \<not> inside_string (pre @ (ch # q)) \<and>
               content = rstrip (pre @ (ch # q)) \<and> comment = strip (''//'' @ r) \<and>
               (\<forall>p' r'. ch # rest = p' @ ''//'' @ r' \<and> length p' < length (ch # q)
                          \<longrightarrow> inside_string (pre @ p'))"
      using q by simp
    show ?thesis unfolding scan_post_def Pair Some prod.case option.case
      by (rule exI[of _ "ch # q"], rule exI[of _ r], rule inst)
  qed
qed

lemma scan_spec:
  "foldl quote_state (False, False) pre = (ins, esc) \<Longrightarrow> scan_post pre rest (scan ins esc pre rest)"
proof (induction rest arbitrary: ins esc pre)
  case Nil
  then show ?case by (simp add: scan_post_def)
next
  case (Cons ch rest)
  have here: "inside_string pre = ins"
    using Cons.prems by (simp add: inside_string_def)
  have nxt: "foldl quote_state (False, False) (pre @ [ch]) = quote_state (ins, esc) ch"
    using Cons.prems by simp
  consider (quote) "ch = CHR 0x22 \<and> \<not> esc"
    | (backslash) "\<not> (ch = CHR 0x22 \<and> \<not> esc)" "ch = CHR 0x5C \<and> \<not> esc"
    | (marker) "\<not> (ch = CHR 0x22 \<and> \<not> esc)" "\<not> (ch = CHR 0x5C \<and> \<not> esc)"
        "\<not> ins \<and> ch = CHR ''/'' \<and> take 1 rest = ''/''"
    | (other) "\<not> (ch = CHR 0x22 \<and> \<not> esc)" "\<not> (ch = CHR 0x5C \<and> \<not> esc)"
        "\<not> (\<not> ins \<and> ch = CHR ''/'' \<and> take 1 rest = ''/'')"
    by blast
  then show ?case
  proof cases
    case quote
    then have st: "foldl quote_state (False, False) (pre @ [ch]) = (\<not> ins, False)"
      using nxt by simp
    have "scan_post pre (ch # rest) (scan (\<not> ins) False (pre @ [ch]) rest)"
      by (rule scan_post_skip) (use quote Cons.IH[OF st] in simp_all)
    with quote show ?thesis by simp
  next
    case backslash
    then have st: "foldl quote_state (False, False) (pre @ [ch]) = (ins, True)"
      using nxt by simp
    have "scan_post pre (ch # rest) (scan ins True (pre @ [ch]) rest)"
      by (rule scan_post_skip) (use backslash Cons.IH[OF st] in simp_all)
    with backslash show ?thesis by simp
  next
    case marker
    then obtain r where r: "rest = CHR ''/'' # r" by (cases rest) auto
    have "ch # rest = [] @ ''//'' @ r" using marker r by simp
    moreover have "\<not> inside_string (pre @ [])" using here marker by simp
    ultimately have "scan_post pre (ch # rest) (rstrip pre, Some (strip (ch # rest)))"
      unfolding scan_post_def using marker r
      by (simp only: prod.case option.case) (rule exI[of _ "[]"], rule exI[of _ r], simp)
    with marker show ?thesis by simp
  next
    case other
    then have st: "foldl quote_state (False, False) (pre @ [ch]) = (ins, False)"
      using nxt by (cases esc) auto
    have "scan_post pre (ch # rest) (scan ins False (pre @ [ch]) rest)"
    proof (rule scan_post_skip)
      assume "ch = CHR ''/'' \<and> take 1 rest = ''/''"
      with other(3) here show "inside_string pre" by blast
    next
      show "scan_post (pre @ [ch]) rest (scan ins False (pre @ [ch]) rest)"
        by (rule Cons.IH[OF st])
    qed
    moreover have "scan ins esc pre (ch # rest) = scan ins False (pre @ [ch]) rest"
      using other by auto
    ultimately show ?thesis by simp
  qed
qed

text \<open>
  C7. The comment marker is recognized only outside a quoted string. When
  \<open>split_content_and_comment\<close> returns a comment, the line is \<open>p @ ''//'' @ r\<close> for the
  first marker that is not inside a string, the content is the prefix \<open>p\<close> before the
  marker with its trailing whitespace removed (so a prefix of \<open>p\<close>), and the comment is
  the stripped rest, which starts with the marker. When it returns no comment, every
  marker of the line is inside a string and the content is the whole line with its trailing
  whitespace removed; and a line whose markers are all inside strings returns no comment.
\<close>

theorem split_content_and_comment_string_safe:
  "(case split_content_and_comment line of
      (content, None) \<Rightarrow>
        content = rstrip line \<and> (\<forall>p r. line = p @ ''//'' @ r \<longrightarrow> inside_string p)
    | (content, Some comment) \<Rightarrow>
        (\<exists>p r. line = p @ ''//'' @ r \<and> \<not> inside_string p \<and>
               (\<forall>p' r'. line = p' @ ''//'' @ r' \<and> length p' < length p \<longrightarrow> inside_string p') \<and>
               content = rstrip p \<and> prefix content p \<and>
               comment = strip (''//'' @ r) \<and> take 2 comment = ''//''))
   \<and> ((\<forall>p r. line = p @ ''//'' @ r \<longrightarrow> inside_string p)
        \<longrightarrow> split_content_and_comment line = (rstrip line, None))"
proof -
  have post: "scan_post [] line (split_content_and_comment line)"
    unfolding split_content_and_comment_def by (rule scan_spec) simp
  obtain content cm where res: "split_content_and_comment line = (content, cm)"
    by (cases "split_content_and_comment line")
  show ?thesis
  proof (cases cm)
    case None
    with post res show ?thesis by (simp add: scan_post_def)
  next
    case (Some comment)
    with post res obtain p r where pr: "line = p @ ''//'' @ r" "\<not> inside_string p"
      "content = rstrip p" "comment = strip (''//'' @ r)"
      "\<forall>p' r'. line = p' @ ''//'' @ r' \<and> length p' < length p \<longrightarrow> inside_string p'"
      by (auto simp: scan_post_def)
    have "line = p @ ''//'' @ r \<and> \<not> inside_string p \<and>
               (\<forall>p' r'. line = p' @ ''//'' @ r' \<and> length p' < length p \<longrightarrow> inside_string p') \<and>
               content = rstrip p \<and> prefix content p \<and>
               comment = strip (''//'' @ r) \<and> take 2 comment = ''//''"
      using pr rstrip_prefix[of p] strip_marker[of r] by simp
    then have ex: "\<exists>p r. line = p @ ''//'' @ r \<and> \<not> inside_string p \<and>
               (\<forall>p' r'. line = p' @ ''//'' @ r' \<and> length p' < length p \<longrightarrow> inside_string p') \<and>
               content = rstrip p \<and> prefix content p \<and>
               comment = strip (''//'' @ r) \<and> take 2 comment = ''//''"
      by (intro exI)
    have "\<not> (\<forall>p r. line = p @ ''//'' @ r \<longrightarrow> inside_string p)"
      using pr(1,2) by blast
    with ex show ?thesis unfolding res Some by (simp only: prod.case option.case) simp
  qed
qed

lemma marker_cons:
  "(ch # rest = p @ CHR ''/'' # CHR ''/'' # r) \<longleftrightarrow>
     (p = [] \<and> ch = CHR ''/'' \<and> rest = CHR ''/'' # r) \<or>
     (\<exists>q. p = ch # q \<and> rest = q @ CHR ''/'' # CHR ''/'' # r)"
  by (cases p) auto

theorem split_content_and_comment_string_safe_witness:
  \<open>split_content_and_comment ''"u": "a//b" // c'' = (''"u": "a//b"'', Some ''// c'')
   \<and> inside_string ''"u": "a''
   \<and> \<not> inside_string ''"u": "a//b" ''
   \<and> split_content_and_comment ''"a//b"  '' = (''"a//b"'', None)\<close>
proof -
  have inside: \<open>\<forall>p r. ''"a//b"  '' = p @ ''//'' @ r \<longrightarrow> inside_string p\<close>
    by (simp add: marker_cons inside_string_def)
  have none: \<open>split_content_and_comment ''"a//b"  '' = (rstrip ''"a//b"  '', None)\<close>
    using split_content_and_comment_string_safe[of \<open>''"a//b"  ''\<close>] inside by blast
  have some: \<open>split_content_and_comment ''"u": "a//b" // c'' = (''"u": "a//b"'', Some ''// c'')\<close>
    by (simp add: split_content_and_comment_def rstrip_def strip_def lstrip_def is_space_def)
  show ?thesis
    using none some by (simp add: inside_string_def rstrip_def is_space_def)
qed

section \<open>Properties of compress\_comments\<close>

lemma compress_refines_gen:
  "foldl compress_step acc lns =
     acc @ collapse_blank_runs (acc = [] \<or> strip (last acc) = []) lns"
proof (induction lns arbitrary: acc)
  case Nil
  show ?case by simp
next
  case (Cons ln lns)
  consider (comment) "startswith (strip ln) ''#''"
    | (content) "\<not> startswith (strip ln) ''#''" "strip ln \<noteq> []"
    | (blank) "\<not> startswith (strip ln) ''#''" "strip ln = []"
    by blast
  then show ?case
  proof cases
    case comment
    then have ne: "strip ln \<noteq> []" by (auto simp: startswith_def)
    have "compress_step acc ln = acc @ [strip ln]"
      using comment by (simp add: compress_step_def Let_def)
    then show ?thesis
      using comment ne Cons.IH[of "acc @ [strip ln]"] by (simp add: strip_idem)
  next
    case content
    have "compress_step acc ln = acc @ [ln]"
      using content by (simp add: compress_step_def Let_def)
    then show ?thesis
      using content Cons.IH[of "acc @ [ln]"] by simp
  next
    case blank
    show ?thesis
    proof (cases "acc = [] \<or> strip (last acc) = []")
      case True
      then have "compress_step acc ln = acc"
        using blank by (auto simp: compress_step_def Let_def)
      then show ?thesis using blank True Cons.IH[of acc] by simp
    next
      case False
      then have "compress_step acc ln = acc @ [ln]"
        using blank by (auto simp: compress_step_def Let_def)
      then show ?thesis using blank False Cons.IH[of "acc @ [ln]"] by simp
    qed
  qed
qed

lemma compress_lines_refines: "compress_lines lns = collapse_blank_runs True lns"
  unfolding compress_lines_def using compress_refines_gen[of "[]" lns] by simp

lemma collapse_idem: "(b \<longrightarrow> b') \<Longrightarrow> collapse_blank_runs b (collapse_blank_runs b' lns) = collapse_blank_runs b' lns"
proof (induction lns arbitrary: b b')
  case Nil
  show ?case by simp
next
  case (Cons ln lns)
  consider (comment) "startswith (strip ln) ''#''"
    | (content) "\<not> startswith (strip ln) ''#''" "strip ln \<noteq> []"
    | (blank) "\<not> startswith (strip ln) ''#''" "strip ln = []"
    by blast
  then show ?case
  proof cases
    case comment
    then show ?thesis using Cons.IH[of False False] by (simp add: strip_idem)
  next
    case content
    then show ?thesis using Cons.IH[of False False] by simp
  next
    case blank
    then show ?thesis using Cons.IH[of b True] Cons.IH[of True True] Cons.prems by auto
  qed
qed

lemma compress_lines_idem: "compress_lines (compress_lines lns) = compress_lines lns"
  by (simp add: compress_lines_refines collapse_idem)

lemma collapse_no_linebreak:
  "list_all no_linebreak lns \<Longrightarrow> list_all no_linebreak (collapse_blank_runs b lns)"
proof (induction lns arbitrary: b)
  case Nil
  show ?case by simp
next
  case (Cons ln lns)
  then have ln: "no_linebreak ln" and rest: "list_all no_linebreak lns" by simp_all
  have "no_linebreak (strip ln)" using ln set_strip by (rule no_linebreak_subset[rotated])
  with ln Cons.IH[OF rest] show ?case by simp
qed

lemma compress_comments_idem: "compress_comments (compress_comments content) = compress_comments content"
proof (cases "compress_lines (splitlines content) = []")
  case True
  have "splitlines ''\<newline>'' = [[]]" by (simp add: splitlines_def is_linebreak_def)
  moreover have "compress_lines [[]] = []"
    by (simp add: compress_lines_def compress_step_def strip_def lstrip_def rstrip_def startswith_def)
  ultimately show ?thesis using True by (simp add: compress_comments_def)
next
  case False
  have "list_all no_linebreak (compress_lines (splitlines content))"
    by (simp add: compress_lines_refines collapse_no_linebreak splitlines_no_linebreak)
  with False have "splitlines (compress_comments content) = compress_lines (splitlines content)"
    unfolding compress_comments_def by (rule splitlines_join)
  then show ?thesis by (simp add: compress_comments_def compress_lines_idem)
qed


lemma comment_not_blank: "startswith (strip ln) ''#'' \<Longrightarrow> strip ln \<noteq> []"
  by (auto simp: startswith_def)

lemma collapse_keeps_lines:
  "filter (\<lambda>ln. strip ln \<noteq> []) (collapse_blank_runs b lns) =
     map (\<lambda>ln. if startswith (strip ln) ''#'' then strip ln else ln)
       (filter (\<lambda>ln. strip ln \<noteq> []) lns)"
proof (induction lns arbitrary: b)
  case Nil
  show ?case by simp
next
  case (Cons ln lns)
  consider (comment) "startswith (strip ln) ''#''"
    | (content) "\<not> startswith (strip ln) ''#''" "strip ln \<noteq> []"
    | (blank) "\<not> startswith (strip ln) ''#''" "strip ln = []"
    by blast
  then show ?case
  proof cases
    case comment
    then show ?thesis
      using Cons.IH[of False] comment_not_blank[OF comment] by (simp add: strip_idem)
  next
    case content
    then show ?thesis using Cons.IH[of False] by simp
  next
    case blank
    then show ?thesis using Cons.IH[of True] by simp
  qed
qed

lemma collapse_blank_separated: "blank_separated b (collapse_blank_runs b lns)"
  by (induction lns arbitrary: b) (simp_all add: strip_idem comment_not_blank)

text \<open>
  C10. \<open>compress_comments\<close> writes the lines of the file with every comment line
  stripped, every other non-blank line unchanged and every run of blank lines collapsed
  to its first line, the blank lines before the first non-blank line dropped: the
  non-blank lines are kept in order, no two blank lines follow each other and the first
  line is not blank. Applied to its own result it changes nothing.
\<close>

theorem compress_comments_normalizes:
  "compress_comments content =
     join ''\<newline>'' (collapse_blank_runs True (splitlines content)) @ ''\<newline>''
   \<and> filter (\<lambda>ln. strip ln \<noteq> []) (compress_lines (splitlines content)) =
       map (\<lambda>ln. if startswith (strip ln) ''#'' then strip ln else ln)
         (filter (\<lambda>ln. strip ln \<noteq> []) (splitlines content))
   \<and> blank_separated True (compress_lines (splitlines content))
   \<and> compress_comments (compress_comments content) = compress_comments content"
proof (intro conjI)
  show "compress_comments content =
     join ''\<newline>'' (collapse_blank_runs True (splitlines content)) @ ''\<newline>''"
    by (simp add: compress_comments_def compress_lines_refines)
  show "filter (\<lambda>ln. strip ln \<noteq> []) (compress_lines (splitlines content)) =
       map (\<lambda>ln. if startswith (strip ln) ''#'' then strip ln else ln)
         (filter (\<lambda>ln. strip ln \<noteq> []) (splitlines content))"
    by (simp only: compress_lines_refines collapse_keeps_lines)
  show "blank_separated True (compress_lines (splitlines content))"
    by (simp only: compress_lines_refines collapse_blank_separated)
  show "compress_comments (compress_comments content) = compress_comments content"
    by (rule compress_comments_idem)
qed

theorem compress_comments_normalizes_witness:
  "compress_comments ''\<newline>   # a  \<newline>\<newline>  \<newline>k:  v \<newline>\<newline>''
     = ''# a\<newline>\<newline>k:  v \<newline>\<newline>''
   \<and> compress_comments (compress_comments ''\<newline>   # a  \<newline>\<newline>  \<newline>k:  v \<newline>\<newline>'')
     = ''# a\<newline>\<newline>k:  v \<newline>\<newline>''"
proof -
  have eq: "compress_comments ''\<newline>   # a  \<newline>\<newline>  \<newline>k:  v \<newline>\<newline>''
     = ''# a\<newline>\<newline>k:  v \<newline>\<newline>''"
    by (simp add: compress_comments_def compress_lines_def compress_step_def splitlines_def
        is_linebreak_def strip_def lstrip_def rstrip_def is_space_def startswith_def)
  have idem: "compress_comments (compress_comments ''\<newline>   # a  \<newline>\<newline>  \<newline>k:  v \<newline>\<newline>'')
     = compress_comments ''\<newline>   # a  \<newline>\<newline>  \<newline>k:  v \<newline>\<newline>''"
    using compress_comments_normalizes[of "''\<newline>   # a  \<newline>\<newline>  \<newline>k:  v \<newline>\<newline>''"]
    by blast
  from idem eq have "compress_comments (compress_comments ''\<newline>   # a  \<newline>\<newline>  \<newline>k:  v \<newline>\<newline>'')
     = ''# a\<newline>\<newline>k:  v \<newline>\<newline>''"
    by (rule trans)
  with eq show ?thesis by (rule conjI)
qed

section \<open>Properties of format\_jsonc\_file and format\_file\<close>

lemma keep_comment_lines_newline:
  "keep_comment_lines (map (\<lambda>ln. ln @ ''\<newline>'') lns) =
     join ''\<newline>'' (map strip (filter (\<lambda>ln. strip ln \<noteq> []) lns)) @ ''\<newline>''"
proof -
  have "map (\<lambda>ln. rstrip (lstrip ln)) (filter (\<lambda>ln. strip ln \<noteq> []) (map (\<lambda>ln. ln @ ''\<newline>'') lns))
        = map strip (filter (\<lambda>ln. strip ln \<noteq> []) lns)"
    by (induction lns) (simp_all add: strip_append_newline strip_def[symmetric])
  then show ?thesis by (simp add: keep_comment_lines_def)
qed

lemma no_structure:
  "only_comments_and_blanks content \<Longrightarrow>
   filter (\<lambda>ln. \<not> startswith (strip ln) ''//'')
     (filter (\<lambda>ln. strip ln \<noteq> []) (map (\<lambda>ln. ln @ ''\<newline>'') (splitlines content))) = []"
  unfolding only_comments_and_blanks_def
  by (induction "splitlines content") (auto simp: strip_append_newline filter_empty_conv list_all_iff)

text \<open>
  C5 (amended). A JSONC file of comment lines and blank lines only (or an empty one) is
  rewritten as its non-blank lines, each stripped, and the parser is not called. The YAML
  formatter leaves an empty file as it is without calling the parser, and calls the parser
  on every other file, a file of comments only included.
\<close>

theorem pure_comment_passthrough:
  "(only_comments_and_blanks content \<longrightarrow>
      format_jsonc_file lib content =
        \<lparr>disk = join ''\<newline>'' (map strip (filter (\<lambda>ln. strip ln \<noteq> []) (splitlines content)))
                  @ ''\<newline>'',
         raised = False, parsed = False, dumped = False\<rparr>)
   \<and> format_file ylib in_workflows [] =
        \<lparr>disk = [], raised = False, parsed = False, dumped = False\<rparr>
   \<and> (content \<noteq> [] \<longrightarrow> parsed (format_file ylib in_workflows content))"
proof (intro conjI impI)
  assume "only_comments_and_blanks content"
  from no_structure[OF this]
  show "format_jsonc_file lib content =
        \<lparr>disk = join ''\<newline>'' (map strip (filter (\<lambda>ln. strip ln \<noteq> []) (splitlines content)))
                  @ ''\<newline>'',
         raised = False, parsed = False, dumped = False\<rparr>"
    by (simp add: format_jsonc_file_def Let_def keep_comment_lines_newline split: prod.splits)
next
  show "format_file ylib in_workflows [] =
        \<lparr>disk = [], raised = False, parsed = False, dumped = False\<rparr>"
    by (simp add: format_file_def)
next
  assume "content \<noteq> []"
  then show "parsed (format_file ylib in_workflows content)"
    by (simp add: format_file_def Let_def split: loaded.splits)
qed

theorem pure_comment_passthrough_witness:
  "format_jsonc_file rejecting_jsonlib
       ''  // one  \<newline>\<newline>// two''
     = \<lparr>disk = ''// one\<newline>// two\<newline>'', raised = False, parsed = False, dumped = False\<rparr>
   \<and> parsed (format_file null_yamllib False ''# only a comment\<newline>'')"
proof -
  have pure: "only_comments_and_blanks ''  // one  \<newline>\<newline>// two''"
    by (simp add: only_comments_and_blanks_def splitlines_def is_linebreak_def strip_def
        lstrip_def rstrip_def is_space_def startswith_def)
  have lns: "join ''\<newline>'' (map strip (filter (\<lambda>ln. strip ln \<noteq> [])
                (splitlines ''  // one  \<newline>\<newline>// two''))) @ ''\<newline>'' = ''// one\<newline>// two\<newline>''"
    by (simp add: splitlines_def is_linebreak_def strip_def lstrip_def rstrip_def is_space_def)
  show ?thesis
    using pure lns
      pure_comment_passthrough[of "''  // one  \<newline>\<newline>// two''"
        "rejecting_jsonlib"
        null_yamllib False]
      pure_comment_passthrough[of "''# only a comment\<newline>''"
        "rejecting_jsonlib"
        null_yamllib False]
    by simp
qed

text \<open>
  A YAML file that holds one comment line: the parser is called, it returns \<open>None\<close>, and
  the file is overwritten with the dump of \<open>None\<close>.
\<close>

theorem pure_comment_yaml_counterexample:
  "format_file null_yamllib False ''# only a comment\<newline>''
     = \<lparr>disk = ''null\<newline>...\<newline>'', raised = False, parsed = True, dumped = True\<rparr>"
  by (simp add: format_file_def null_yamllib_def compress_comments_def compress_lines_def
      compress_step_def strip_trailing_whitespace_def splitlines_def is_linebreak_def
      strip_def lstrip_def rstrip_def is_space_def startswith_def)

lemma strip_suffix_newline:
  assumes "no_linebreak ln" and "ln @ ''\<newline>'' = p @ s"
  shows "no_linebreak (strip s)"
proof (cases s rule: rev_cases)
  case Nil
  then show ?thesis by (simp add: strip_def lstrip_def rstrip_def no_linebreak_def)
next
  case (snoc s' c)
  with assms(2) have "ln = p @ s'" "c = CHR ''\<newline>''" by simp_all
  with assms(1) have "no_linebreak s'" by (simp add: no_linebreak_append)
  then have "no_linebreak (strip s')" by (rule no_linebreak_strip)
  with snoc \<open>c = CHR ''\<newline>''\<close> show ?thesis using strip_append_newline[of s'] by simp
qed

lemma split_comment_clean:
  assumes "no_linebreak ln" and "split_content_and_comment (ln @ ''\<newline>'') = (content, Some c)"
  shows "no_linebreak c"
proof -
  have "scan_post [] (ln @ ''\<newline>'') (content, Some c)"
    using scan_spec[of "[]" False False "ln @ ''\<newline>''"] assms(2)
    by (simp add: split_content_and_comment_def)
  then obtain p r where "ln @ ''\<newline>'' = p @ ''//'' @ r" "c = strip (''//'' @ r)"
    by (auto simp: scan_post_def)
  with assms(1) show ?thesis using strip_suffix_newline[of ln p "''//'' @ r"] by simp
qed

lemma extract_step_clean:
  assumes st: "ext_clean st" and ln: "no_linebreak ln"
  shows "ext_clean (extract_step st (ln @ ''\<newline>''))"
proof -
  obtain content comment where sp: "split_content_and_comment (ln @ ''\<newline>'') = (content, comment)"
    by (cases "split_content_and_comment (ln @ ''\<newline>'')")
  have cm: "no_linebreak (the comment)" if "truthy_comment comment"
    using that sp split_comment_clean[OF ln] by (cases comment) (auto simp: truthy_comment_def)
  have r: "no_linebreak (rstrip (ln @ ''\<newline>''))"
    using ln by (simp add: rstrip_append_newline no_linebreak_rstrip)
  have s: "no_linebreak (strip (ln @ ''\<newline>''))"
    using ln by (simp add: strip_append_newline no_linebreak_strip)
  show ?thesis
    using st cm r s unfolding extract_step_def sp ext_clean_def
    by (auto simp: Let_def split: option.splits)
qed

lemma extract_fold_clean:
  "ext_clean st \<Longrightarrow> list_all no_linebreak lns \<Longrightarrow>
   ext_clean (foldl extract_step st (map (\<lambda>ln. ln @ ''\<newline>'') lns))"
  by (induction lns arbitrary: st) (simp_all add: extract_step_clean)

lemma ext_init_clean: "ext_clean ext_init"
  by (simp add: ext_clean_def ext_init_def)

lemma reinject_step_clean:
  assumes "list_all no_linebreak (fst acc)" and "no_linebreak line"
    and "\<And>fp cs. leading_c fp = Some cs \<Longrightarrow> list_all no_linebreak cs"
    and "\<And>fp c. inline_c fp = Some c \<Longrightarrow> no_linebreak c"
  shows "list_all no_linebreak (fst (reinject_step leading_c inline_c acc line))"
proof -
  obtain out_lines stack where acc: "acc = (out_lines, stack)" by (cases acc)
  have ind: "no_linebreak (takeWhile (\<lambda>c. c \<noteq> CHR 0x22) line)"
    using assms(2) set_takeWhileD by (fastforce simp: no_linebreak_def list_ex_iff)
  have sp: "no_linebreak (CHR '' '' # c)" if "no_linebreak c" for c
    using that by (simp add: no_linebreak_def is_linebreak_def)
  have lead: "list_all no_linebreak (map (\<lambda>c. takeWhile (\<lambda>c. c \<noteq> CHR 0x22) line @ strip c) cs)"
    if "leading_c fp = Some cs" for fp cs
    using assms(3)[OF that] ind by (induction cs) (simp_all add: no_linebreak_append no_linebreak_strip)
  show ?thesis
    using assms(1,2,4) lead sp unfolding reinject_step_def acc
    by (auto simp: Let_def no_linebreak_append split: option.splits)
qed

lemma reinject_fold_clean:
  assumes "\<And>fp cs. leading_c fp = Some cs \<Longrightarrow> list_all no_linebreak cs"
    and "\<And>fp c. inline_c fp = Some c \<Longrightarrow> no_linebreak c"
  shows "list_all no_linebreak (fst acc) \<Longrightarrow> list_all no_linebreak lns \<Longrightarrow>
         list_all no_linebreak (fst (foldl (reinject_step leading_c inline_c) acc lns))"
proof (induction lns arbitrary: acc)
  case Nil
  then show ?case by simp
next
  case (Cons ln lns)
  then have "list_all no_linebreak (fst (reinject_step leading_c inline_c acc ln))"
    using reinject_step_clean[OF _ _ assms] by simp
  with Cons show ?case by simp
qed


lemma reinject_clean:
  assumes fm: "formatted \<noteq> []" "list_all no_linebreak formatted"
    and tp: "list_all no_linebreak top_c" and bt: "list_all no_linebreak bottom"
    and ld: "\<And>fp cs. leading_c fp = Some cs \<Longrightarrow> list_all no_linebreak cs"
    and il: "\<And>fp c. inline_c fp = Some c \<Longrightarrow> no_linebreak c"
  shows "list_all (\<lambda>l. strip l \<noteq> [] \<and> no_linebreak l)
           (reinject top_c leading_c inline_c bottom formatted)"
proof -
  have h: "no_linebreak (hd formatted)" and l: "no_linebreak (last formatted)"
    using fm by (simp_all add: list_all_iff)
  have body: "list_all no_linebreak (butlast (tl formatted))"
    using fm(2) by (rule list_all_butlast_tl)
  obtain out1 stack where f: "foldl (reinject_step leading_c inline_c) (top_c @ [hd formatted], [])
      (butlast (tl formatted)) = (out1, stack)"
    by (cases "foldl (reinject_step leading_c inline_c) (top_c @ [hd formatted], [])
      (butlast (tl formatted))")
  have "list_all no_linebreak (fst (foldl (reinject_step leading_c inline_c)
      (top_c @ [hd formatted], []) (butlast (tl formatted))))"
    by (rule reinject_fold_clean[OF ld il]) (use tp h body in simp_all)
  then have "list_all no_linebreak out1" by (simp add: f)
  then show ?thesis
    using l bt unfolding reinject_def by (auto simp: Let_def f list_all_iff)
qed

lemma keep_comment_lines_clean:
  assumes "list_all no_linebreak lns"
  shows "list_all (\<lambda>l. strip l \<noteq> [] \<and> no_linebreak l)
           (map strip (filter (\<lambda>ln. strip ln \<noteq> []) lns))"
  using assms by (induction lns) (simp_all add: strip_idem no_linebreak_strip)

lemma written_ends_with_one_newline:
  assumes "lns \<noteq> []" and "list_all (\<lambda>l. strip l \<noteq> [] \<and> no_linebreak l) lns"
  shows "ends_with_one_newline (join ''\<newline>'' lns @ ''\<newline>'')"
proof -
  have ne: "list_all (\<lambda>l. l \<noteq> []) lns"
    using assms(2) by (auto simp: list_all_iff strip_def lstrip_def rstrip_def)
  then have lne: "last lns \<noteq> []" using assms(1) by (simp add: list_all_iff)
  have "no_linebreak (last lns)" using assms by (simp add: list_all_iff)
  then have "last (last lns) \<noteq> CHR ''\<newline>''"
    using lne by (auto simp: no_linebreak_def list_ex_iff is_linebreak_def)
  then have "last (join ''\<newline>'' lns) \<noteq> CHR ''\<newline>''"
    using last_join[OF assms(1) lne] by simp
  moreover have "join ''\<newline>'' lns \<noteq> []"
    using join_nonempty[OF assms(1) lne] .
  ultimately show ?thesis
    by (cases "join ''\<newline>'' lns") (simp_all add: ends_with_one_newline_def butlast_append)
qed

lemma format_jsonc_file_written:
  assumes "\<not> raised (format_jsonc_file lib content)"
  shows "\<exists>lns. disk (format_jsonc_file lib content) = join ''\<newline>'' lns @ ''\<newline>'' \<and>
               list_all (\<lambda>l. strip l \<noteq> [] \<and> no_linebreak l) lns"
proof -
  let ?lines = "map (\<lambda>ln. ln @ ''\<newline>'') (splitlines content)"
  let ?st = "foldl extract_step ext_init ?lines"
  have clean: "ext_clean ?st"
    by (rule extract_fold_clean[OF ext_init_clean splitlines_no_linebreak])
  have ex: "extract_comments ?lines = (top_lines ?st, leading ?st, inline ?st, cur_comments ?st)"
    by (simp add: extract_comments_def Let_def)
  have keep: "\<exists>lns. keep_comment_lines ?lines = join ''\<newline>'' lns @ ''\<newline>'' \<and>
               list_all (\<lambda>l. strip l \<noteq> [] \<and> no_linebreak l) lns"
    using keep_comment_lines_newline[of "splitlines content"]
      keep_comment_lines_clean[OF splitlines_no_linebreak, of content] by blast
  have rein: "list_all (\<lambda>l. strip l \<noteq> [] \<and> no_linebreak l)
      (reinject (top_lines ?st) (leading ?st) (inline ?st) (cur_comments ?st) (splitlines t))"
    if "splitlines t \<noteq> []" for t
    by (rule reinject_clean[OF that splitlines_no_linebreak])
       (use clean in \<open>auto simp: ext_clean_def\<close>)
  show ?thesis
  proof (cases "filter (\<lambda>ln. \<not> startswith (strip ln) ''//'')
                  (filter (\<lambda>ln. strip ln \<noteq> []) ?lines) = []")
    case True
    then have "disk (format_jsonc_file lib content) = keep_comment_lines ?lines"
      by (simp add: format_jsonc_file_def Let_def ex)
    with keep show ?thesis by simp
  next
    case False
    show ?thesis
    proof (cases "loads lib content")
      case None
      with False assms show ?thesis by (simp add: format_jsonc_file_def Let_def ex)
    next
      case (Some data)
      show ?thesis
      proof (cases "is_falsy lib data")
        case True
        with False Some have "disk (format_jsonc_file lib content) = keep_comment_lines ?lines"
          by (simp add: format_jsonc_file_def Let_def ex)
        with keep show ?thesis by simp
      next
        case falsy: False
        show ?thesis
        proof (cases "splitlines (dumps lib data) = []")
          case True
          with False Some falsy assms show ?thesis
            by (simp add: format_jsonc_file_def Let_def ex)
        next
          case nonempty: False
          with False Some falsy have "disk (format_jsonc_file lib content) =
              join ''\<newline>'' (reinject (top_lines ?st) (leading ?st) (inline ?st)
                (cur_comments ?st) (splitlines (dumps lib data))) @ ''\<newline>''"
            by (simp add: format_jsonc_file_def Let_def ex)
          with rein[OF nonempty] show ?thesis by blast
        qed
      qed
    qed
  qed
qed

text \<open>
  C9 (amended). Every file the JSONC formatter processes without failure is written as
  its non-blank output lines, none of which holds a line break, joined by newlines and
  ended by one newline: the text is the single newline when no line is left (an empty
  file, a file of blank lines), and otherwise ends with exactly one newline after a
  non-empty last line. The YAML formatter leaves an empty file empty.
\<close>

theorem written_text_trailing_newline:
  "(\<not> raised (format_jsonc_file lib content) \<longrightarrow>
      (\<exists>lns. disk (format_jsonc_file lib content) = join ''\<newline>'' lns @ ''\<newline>'' \<and>
             list_all (\<lambda>l. strip l \<noteq> [] \<and> no_linebreak l) lns) \<and>
      (disk (format_jsonc_file lib content) = ''\<newline>'' \<or>
       ends_with_one_newline (disk (format_jsonc_file lib content))))
   \<and> disk (format_file ylib in_workflows []) = []"
proof (intro conjI impI)
  assume ok: "\<not> raised (format_jsonc_file lib content)"
  from format_jsonc_file_written[OF ok]
  show "\<exists>lns. disk (format_jsonc_file lib content) = join ''\<newline>'' lns @ ''\<newline>'' \<and>
             list_all (\<lambda>l. strip l \<noteq> [] \<and> no_linebreak l) lns" .
  from format_jsonc_file_written[OF ok] obtain lns where
    d: "disk (format_jsonc_file lib content) = join ''\<newline>'' lns @ ''\<newline>''" and
    c: "list_all (\<lambda>l. strip l \<noteq> [] \<and> no_linebreak l) lns" by blast
  show "disk (format_jsonc_file lib content) = ''\<newline>'' \<or>
       ends_with_one_newline (disk (format_jsonc_file lib content))"
  proof (cases "lns = []")
    case True
    with d show ?thesis by simp
  next
    case False
    from written_ends_with_one_newline[OF False c] d show ?thesis by simp
  qed
next
  show "disk (format_file ylib in_workflows []) = []"
    by (simp add: format_file_def)
qed

theorem written_text_trailing_newline_witness:
  \<open>\<not> raised (format_jsonc_file (canonical_lib scenario_canonical) scenario)
   \<and> disk (format_jsonc_file (canonical_lib scenario_canonical) scenario) \<noteq> ''\<newline>''
   \<and> ends_with_one_newline (disk (format_jsonc_file (canonical_lib scenario_canonical) scenario))\<close>
proof -
  have run: \<open>format_jsonc_file (canonical_lib scenario_canonical) scenario =
     \<lparr>disk = ''{\<newline>  "a": 1 // x\<newline>}\<newline>'', raised = False, parsed = True, dumped = True\<rparr>\<close>
    by (simp add: jsonc_ops string_ops scenario_def scenario_canonical_def)
  then have ok: "\<not> raised (format_jsonc_file (canonical_lib scenario_canonical) scenario)"
    by simp
  have ne: "disk (format_jsonc_file (canonical_lib scenario_canonical) scenario) \<noteq> ''\<newline>''"
    by (simp add: run)
  from written_text_trailing_newline[of "canonical_lib scenario_canonical" scenario] ok ne
  have "ends_with_one_newline (disk (format_jsonc_file (canonical_lib scenario_canonical) scenario))"
    by blast
  with ok ne show ?thesis by blast
qed

text \<open>
  An empty JSONC file is written as a single newline, whose last line is empty; an empty
  YAML file stays empty.
\<close>

theorem written_text_trailing_newline_counterexample:
  "\<not> raised (format_jsonc_file rejecting_jsonlib [])
   \<and> disk (format_jsonc_file rejecting_jsonlib []) = ''\<newline>''
   \<and> \<not> ends_with_one_newline (disk (format_jsonc_file rejecting_jsonlib []))
   \<and> \<not> raised (format_file null_yamllib False [])
   \<and> disk (format_file null_yamllib False []) = []
   \<and> \<not> ends_with_one_newline (disk (format_file null_yamllib False []))"
  by (simp add: jsonc_ops string_ops format_file_def ends_with_one_newline_def)

section \<open>Properties of main\<close>

lemma raised_keeps_disk:
  "raised (format_jsonc_file lib content) \<Longrightarrow> disk (format_jsonc_file lib content) = content"
  by (auto simp: format_jsonc_file_def Let_def split: prod.splits option.splits if_splits)

lemma has_structure_lines:
  "has_structure content \<Longrightarrow>
   filter (\<lambda>ln. \<not> startswith (strip ln) ''//'')
     (filter (\<lambda>ln. strip ln \<noteq> []) (map (\<lambda>ln. ln @ ''\<newline>'') (splitlines content))) \<noteq> []"
  unfolding has_structure_def only_comments_and_blanks_def
  by (induction "splitlines content") (auto simp: strip_append_newline filter_empty_conv list_all_iff)

lemma parse_failure_raises:
  "has_structure content \<Longrightarrow> loads lib content = None \<Longrightarrow>
   raised (format_jsonc_file lib content)"
  using has_structure_lines[of content]
  by (simp add: format_jsonc_file_def Let_def split: prod.splits)

lemma main_fold:
  "distinct argv \<Longrightarrow>
   foldl (main_step lib) (fs, acc) argv = (fs', failed) \<Longrightarrow>
     failed = acc @ filter (jsonc_fails lib fs) argv \<and>
     (\<forall>p. p \<notin> set argv \<longrightarrow> fs' p = fs p) \<and>
     (\<forall>p \<in> set argv. jsonc_fails lib fs p \<longrightarrow> fs' p = fs p) \<and>
     (\<forall>p \<in> set argv. \<not> jsonc_fails lib fs p \<longrightarrow>
         fs' p = Some (disk (format_jsonc_file lib (the (fs p)))))"
proof (induction argv arbitrary: fs acc)
  case Nil
  then show ?case by simp
next
  case (Cons a argv)
  obtain fs1 exc where step: "format_jsonc_path lib fs a = (fs1, exc)"
    by (cases "format_jsonc_path lib fs a")
  have exc: "exc = jsonc_fails lib fs a"
    using step by (auto simp: format_jsonc_path_def jsonc_fails_def Let_def split: option.splits)
  have other: "fs1 p = fs p" if "p \<noteq> a" for p
    using step that by (auto simp: format_jsonc_path_def Let_def split: option.splits)
  have self_fail: "fs1 a = fs a" if "jsonc_fails lib fs a"
    using step that raised_keeps_disk[of lib]
    by (auto simp: format_jsonc_path_def jsonc_fails_def Let_def split: option.splits)
  have self_ok: "fs1 a = Some (disk (format_jsonc_file lib (the (fs a))))" if "\<not> jsonc_fails lib fs a"
    using step that
    by (auto simp: format_jsonc_path_def jsonc_fails_def Let_def split: option.splits)
  have same: "jsonc_fails lib fs1 p = jsonc_fails lib fs p" if "p \<noteq> a" for p
    using other[OF that] by (simp add: jsonc_fails_def)
  have filt: "filter (jsonc_fails lib fs1) argv = filter (jsonc_fails lib fs) argv"
  proof (rule filter_cong[OF refl])
    fix x assume "x \<in> set argv"
    with Cons.prems(1) have "x \<noteq> a" by auto
    then show "jsonc_fails lib fs1 x = jsonc_fails lib fs x" by (rule same)
  qed
  have one: "main_step lib (fs, acc) a = (fs1, if exc then acc @ [a] else acc)"
    using step by (simp add: main_step_def)
  have rest: "foldl (main_step lib) (fs1, if exc then acc @ [a] else acc) argv = (fs', failed)"
    using Cons.prems(2) by (simp only: foldl_Cons one)
  from Cons.prems(1) have d: "distinct argv" and na: "a \<notin> set argv" by simp_all
  note ih = Cons.IH[OF d rest]
  show ?case
  proof (intro conjI allI ballI impI)
    show "failed = acc @ filter (jsonc_fails lib fs) (a # argv)"
      using ih exc filt by simp
  next
    fix p assume "p \<notin> set (a # argv)"
    then show "fs' p = fs p" using ih other by simp
  next
    fix p assume p: "p \<in> set (a # argv)" and f: "jsonc_fails lib fs p"
    show "fs' p = fs p"
    proof (cases "p = a")
      case True
      with ih na have "fs' p = fs1 p" by blast
      with True f self_fail show ?thesis by simp
    next
      case False
      with p have "p \<in> set argv" by simp
      moreover have "jsonc_fails lib fs1 p" using f same[OF False] by simp
      ultimately have "fs' p = fs1 p" using ih by blast
      with other[OF False] show ?thesis by simp
    qed
  next
    fix p assume p: "p \<in> set (a # argv)" and f: "\<not> jsonc_fails lib fs p"
    show "fs' p = Some (disk (format_jsonc_file lib (the (fs p))))"
    proof (cases "p = a")
      case True
      with ih na have "fs' p = fs1 p" by blast
      with True f self_ok show ?thesis by simp
    next
      case False
      with p have "p \<in> set argv" by simp
      moreover have "\<not> jsonc_fails lib fs1 p" using f same[OF False] by simp
      ultimately have "fs' p = Some (disk (format_jsonc_file lib (the (fs1 p))))" using ih by blast
      with other[OF False] show ?thesis by simp
    qed
  qed
qed

text \<open>
  C6 (amended). For the JSONC formatter, run on distinct paths: the files that fail (the
  file cannot be read, or its structural content does not parse) are left as they were,
  their paths are collected in the order of the arguments, every other file is formatted
  whatever failed before it, and the return value is 1 when a file failed and 0 otherwise.
  A file with structural content that the parser rejects is among the failed ones.
\<close>

theorem main_error_contract:
  "distinct argv \<Longrightarrow> main lib argv fs = (fs', failed_files, status) \<Longrightarrow>
     failed_files = filter (jsonc_fails lib fs) argv \<and>
     (\<forall>p \<in> set argv. jsonc_fails lib fs p \<longrightarrow> fs' p = fs p) \<and>
     (\<forall>p \<in> set argv. \<not> jsonc_fails lib fs p \<longrightarrow>
         fs' p = Some (disk (format_jsonc_file lib (the (fs p))))) \<and>
     (\<forall>p \<in> set argv. \<forall>content. fs p = Some content \<and> has_structure content \<and>
         loads lib content = None \<longrightarrow> p \<in> set failed_files \<and> fs' p = Some content) \<and>
     (status \<noteq> 0 \<longleftrightarrow> failed_files \<noteq> []) \<and> (status = 0 \<or> status = 1)"
proof -
  assume d: "distinct argv" and m: "main lib argv fs = (fs', failed_files, status)"
  from m have f: "foldl (main_step lib) (fs, []) argv = (fs', failed_files)"
    and s: "status = (if failed_files \<noteq> [] then 1 else 0)"
    by (auto simp: main_def Let_def split: prod.splits)
  note mf = main_fold[OF d f]
  have fails: "jsonc_fails lib fs p"
    if "fs p = Some content" "has_structure content" "loads lib content = None" for p content
    using that parse_failure_raises[of content lib] by (simp add: jsonc_fails_def)
  show ?thesis
  proof (intro conjI ballI allI impI)
    show "failed_files = filter (jsonc_fails lib fs) argv" using mf by simp
  next
    fix p assume "p \<in> set argv" "jsonc_fails lib fs p"
    then show "fs' p = fs p" using mf by blast
  next
    fix p assume "p \<in> set argv" "\<not> jsonc_fails lib fs p"
    then show "fs' p = Some (disk (format_jsonc_file lib (the (fs p))))" using mf by blast
  next
    fix p content
    assume p: "p \<in> set argv"
      and c: "fs p = Some content \<and> has_structure content \<and> loads lib content = None"
    then have jf: "jsonc_fails lib fs p" using fails by blast
    with p mf show "p \<in> set failed_files" by simp
    from p jf mf have "fs' p = fs p" by blast
    with c show "fs' p = Some content" by simp
  next
    show "(status \<noteq> 0) = (failed_files \<noteq> [])" using s by simp
  next
    show "status = 0 \<or> status = 1" using s by simp
  qed
qed

theorem main_error_contract_witness:
  "fst (snd (main rejecting_jsonlib [''a.jsonc'', ''b.jsonc''] jsonc_files)) = [''a.jsonc'']
   \<and> snd (snd (main rejecting_jsonlib [''a.jsonc'', ''b.jsonc''] jsonc_files)) = 1
   \<and> fst (main rejecting_jsonlib [''a.jsonc'', ''b.jsonc''] jsonc_files) ''a.jsonc''
       = Some ''{\<newline>''
   \<and> fst (main rejecting_jsonlib [''a.jsonc'', ''b.jsonc''] jsonc_files) ''b.jsonc''
       = Some ''// c\<newline>''"
proof -
  have d: "distinct [''a.jsonc'', ''b.jsonc'']" by simp
  have m: "main rejecting_jsonlib [''a.jsonc'', ''b.jsonc''] jsonc_files =
      (fst (main rejecting_jsonlib [''a.jsonc'', ''b.jsonc''] jsonc_files),
       fst (snd (main rejecting_jsonlib [''a.jsonc'', ''b.jsonc''] jsonc_files)),
       snd (snd (main rejecting_jsonlib [''a.jsonc'', ''b.jsonc''] jsonc_files)))"
    by simp
  have a: "jsonc_fails rejecting_jsonlib jsonc_files ''a.jsonc''"
    by (simp add: jsonc_fails_def jsonc_files_def rejecting_jsonlib_def jsonc_ops string_ops)
  have b: "\<not> jsonc_fails rejecting_jsonlib jsonc_files ''b.jsonc''"
    by (simp add: jsonc_fails_def jsonc_files_def rejecting_jsonlib_def jsonc_ops string_ops)
  have bd: "disk (format_jsonc_file rejecting_jsonlib (the (jsonc_files ''b.jsonc''))) = ''// c\<newline>''"
    by (simp add: jsonc_files_def rejecting_jsonlib_def jsonc_ops string_ops)
  have af: "jsonc_files ''a.jsonc'' = Some ''{\<newline>''"
    by (simp add: jsonc_files_def)
  note c = main_error_contract[OF d m]
  from c a b have "fst (snd (main rejecting_jsonlib [''a.jsonc'', ''b.jsonc''] jsonc_files)) = [''a.jsonc'']"
    by simp
  moreover from this c have "snd (snd (main rejecting_jsonlib [''a.jsonc'', ''b.jsonc''] jsonc_files)) = 1"
    by auto
  moreover from c a af have "fst (main rejecting_jsonlib [''a.jsonc'', ''b.jsonc''] jsonc_files) ''a.jsonc''
       = Some ''{\<newline>''"
    by simp
  moreover from c b bd have "fst (main rejecting_jsonlib [''a.jsonc'', ''b.jsonc''] jsonc_files) ''b.jsonc''
       = Some ''// c\<newline>''"
    by simp
  ultimately show ?thesis by blast
qed

text \<open>
  The YAML script on two files that the parser rejects: the run ends with the exception
  of the first file, which \<open>compress_comments\<close> has already rewritten, and the second
  file is not processed (\<open>format_file\<close> would have rewritten it as well).
\<close>

theorem yaml_main_counterexample:
  "snd (yaml_main rejecting_yamllib outside_workflows [''a.yml'', ''b.yml''] yaml_files)
   \<and> yaml_files ''a.yml'' = Some ''  # c\<newline>key: [\<newline>''
   \<and> fst (yaml_main rejecting_yamllib outside_workflows [''a.yml'', ''b.yml''] yaml_files) ''a.yml''
       = Some ''# c\<newline>key: [\<newline>''
   \<and> fst (yaml_main rejecting_yamllib outside_workflows [''a.yml'', ''b.yml''] yaml_files) ''b.yml''
       = Some ''  # d\<newline>k: v\<newline>''
   \<and> raised (format_file rejecting_yamllib False ''  # d\<newline>k: v\<newline>'')
   \<and> disk (format_file rejecting_yamllib False ''  # d\<newline>k: v\<newline>'') = ''# d\<newline>k: v\<newline>''"
  by (simp add: yaml_files_def rejecting_yamllib_def outside_workflows_def format_file_def
      compress_comments_def compress_lines_def compress_step_def string_ops)

section \<open>The formatters on the example inputs\<close>

text \<open>
  C1. The comment after the opening brace is in none of the four containers: on the
  lines of \<open>scenario\<close> (\<open>{ // note\<close>, \<open>"a": 1 // x\<close>, \<open>}\<close>) \<open>extract_comments\<close> returns
  an empty \<open>top\<close>, an empty \<open>leading\<close>, the comment \<open>// x\<close> for the key \<open>a\<close> and an empty
  \<open>bottom\<close>; the comment \<open>// note\<close> is lost.
\<close>

theorem extract_comments_opening_brace_comment:
  \<open>map (\<lambda>ln. ln @ ''\<newline>'') (splitlines scenario) =
     [''{ // note\<newline>'', ''  "a": 1 // x\<newline>'', ''}\<newline>'']
   \<and> split_content_and_comment ''{ // note\<newline>'' = (''{'', Some ''// note'')
   \<and> extract_comments (map (\<lambda>ln. ln @ ''\<newline>'') (splitlines scenario)) =
       ([], Map.empty, [''a'' \<mapsto> ''// x''], [])\<close>
  by (simp add: jsonc_ops string_ops scenario_def)

text \<open>
  C3. The scenario of the specification: the file \<open>{ // note\<close>, \<open>"a": 1 // x\<close>, \<open>}\<close>,
  whose canonical form is \<open>{\<close>, \<open>"a": 1\<close>, \<open>}\<close>, is written with \<open>// x\<close> after the key
  and without \<open>// note\<close>.
\<close>

theorem format_jsonc_file_scenario:
  \<open>format_jsonc_file (canonical_lib scenario_canonical) scenario =
     \<lparr>disk = ''{\<newline>  "a": 1 // x\<newline>}\<newline>'', raised = False, parsed = True, dumped = True\<rparr>\<close>
  by (simp add: jsonc_ops string_ops scenario_def scenario_canonical_def)

text \<open>
  C4. On a file that is already in canonical form (\<open>nested\<close>), the two passes disagree
  after the line that closes the object of \<open>a\<close>: the extraction tests the unstripped
  content for a leading brace and keeps \<open>a\<close> on its stack, the reinjection tests the
  stripped line and pops it. The comment of \<open>c\<close> is stored under the path \<open>a.c\<close>, looked
  up under \<open>c\<close>, and is not in the file that is written.
\<close>

theorem path_stacks_disagree:
  \<open>path_stack (foldl extract_step ext_init
       [''{\<newline>'', ''  "a": {\<newline>'', ''    "b": 1\<newline>'', ''  },\<newline>'']) = [''a'']
   \<and> snd (foldl (reinject_step Map.empty Map.empty) ([''{''], [])
       [''  "a": {'', ''    "b": 1'', ''  },'']) = []
   \<and> extract_comments (map (\<lambda>ln. ln @ ''\<newline>'') (splitlines nested)) =
       ([], Map.empty, [''a.c'' \<mapsto> ''// x''], [])
   \<and> snd (reinject_step Map.empty [''c'' \<mapsto> ''// x''] ([], []) ''  "c": 2'') = []
   \<and> fst (reinject_step Map.empty [''c'' \<mapsto> ''// x''] ([], []) ''  "c": 2'')
       = [''  "c": 2 // x'']
   \<and> disk (format_jsonc_file (canonical_lib nested_canonical) nested) =
       ''{\<newline>  "a": {\<newline>    "b": 1\<newline>  },\<newline>  "c": 2\<newline>}\<newline>''\<close>
  by (simp add: jsonc_ops string_ops nested_def nested_canonical_def)

text \<open>
  C8. Formatting twice is not formatting once: the file \<open>flush\<close>, written without
  indentation, keeps its comment in the first run (\<open>flush_formatted\<close>) and loses it in
  the second.
\<close>

theorem format_jsonc_file_not_idempotent:
  \<open>disk (format_jsonc_file (canonical_lib flush_canonical) flush) = flush_formatted
   \<and> disk (format_jsonc_file (canonical_lib flush_canonical) flush_formatted) =
       ''{\<newline>  "a": {\<newline>    "x": 0\<newline>  },\<newline>  "b": 1\<newline>}\<newline>''
   \<and> disk (format_jsonc_file (canonical_lib flush_canonical)
         (disk (format_jsonc_file (canonical_lib flush_canonical) flush)))
       \<noteq> disk (format_jsonc_file (canonical_lib flush_canonical) flush)\<close>
proof -
  have one: \<open>disk (format_jsonc_file (canonical_lib flush_canonical) flush) = flush_formatted\<close>
    by (simp add: jsonc_ops string_ops flush_def flush_canonical_def flush_formatted_def)
  have two: \<open>disk (format_jsonc_file (canonical_lib flush_canonical) flush_formatted) =
       ''{\<newline>  "a": {\<newline>    "x": 0\<newline>  },\<newline>  "b": 1\<newline>}\<newline>''\<close>
    by (simp add: jsonc_ops string_ops flush_canonical_def flush_formatted_def)
  show ?thesis unfolding one two by (simp add: flush_formatted_def)
qed

text \<open>
  C2. A YAML file whose document is not empty is never dumped: the file is left as
  \<open>compress_comments\<close> wrote it (or untouched under \<open>.github/workflows\<close>).
\<close>

theorem format_file_never_dumps_document:
  "content \<noteq> [] \<Longrightarrow>
   yaml_load lib (if in_workflows then content else compress_comments content) = Loaded (Some d) \<Longrightarrow>
   format_file lib in_workflows content =
     \<lparr>disk = (if in_workflows then content else compress_comments content),
      raised = False, parsed = True, dumped = False\<rparr>"
  by (cases in_workflows) (simp_all add: format_file_def Let_def)

theorem format_file_never_dumps_document_witness:
  "format_file document_yamllib False ''key:   value\<newline>'' =
     \<lparr>disk = ''key:   value\<newline>'', raised = False, parsed = True, dumped = False\<rparr>"
proof -
  have ne: "''key:   value\<newline>'' \<noteq> []" by simp
  have ld: "yaml_load document_yamllib
      (if False then ''key:   value\<newline>'' else compress_comments ''key:   value\<newline>'') = Loaded (Some ())"
    by (simp add: document_yamllib_def)
  have cc: "compress_comments ''key:   value\<newline>'' = ''key:   value\<newline>''"
    by (simp add: compress_comments_def compress_lines_def compress_step_def string_ops)
  show ?thesis
    using format_file_never_dumps_document[OF ne ld] cc by simp
qed

end
